theory Spec2Isabelle
  imports
    Main
    "HOL-Library.AList"
    "HOL-Library.Char_ord"
    "HOL-Library.Product_Lexorder"
    "HOL-Library.Multiset"
begin

section \<open>Register allocation by graph colouring: program.py\<close>

text \<open>
  The program reads an interference graph from a text file, ranks the nodes by their
  number of neighbours, colours them greedily in that order with the letters A to Z and
  writes one line per coloured node. Each function of \<^verbatim>\<open>program.py\<close> is
  embedded below under its own name.

  Python values are represented as follows.
  \<^item> A \<^verbatim>\<open>str\<close> is a \<^typ>\<open>string\<close>. The embedding covers ASCII text: a character
    above 127 is neither a digit nor a space here, whereas Python knows further Unicode
    digits and spaces.
  \<^item> An \<^verbatim>\<open>int\<close> is an \<^typ>\<open>int\<close>.
  \<^item> A \<^verbatim>\<open>set\<close> of integers is an \<^typ>\<open>int set\<close>; the program only tests
    membership in its sets, builds a set from one and takes \<^verbatim>\<open>len\<close>. That
    the order of iteration of a set has no influence is proved in the last section, for
    the program with the orders of iteration made explicit.
  \<^item> A \<^verbatim>\<open>dict\<close> is an association list in insertion order, looked up with
    \<^const>\<open>map_of\<close> and stored into with \<^const>\<open>AList.update\<close>, which keeps the
    place of a key that is present and appends a new key, as a Python dict does.
\<close>

subsection \<open>Characters and strings of Python\<close>

definition LF :: char where
  "LF = CHR 0x0A"

text \<open>\<^verbatim>\<open>c.isdigit()\<close> on an ASCII character.\<close>

definition py_isdigit :: "char \<Rightarrow> bool" where
  "py_isdigit c = (c \<in> set ''0123456789'')"

text \<open>
  \<^verbatim>\<open>c.isspace()\<close> on an ASCII character: tab, line feed, vertical tab, form feed,
  carriage return, the four separators 0x1C to 0x1F, and the blank.
\<close>

definition py_isspace :: "char \<Rightarrow> bool" where
  "py_isspace c = (c \<in> {CHR 0x09, CHR 0x0A, CHR 0x0B, CHR 0x0C, CHR 0x0D,
                          CHR 0x1C, CHR 0x1D, CHR 0x1E, CHR 0x1F, CHR 0x20})"

text \<open>
  The white space that \<^verbatim>\<open>int()\<close> skips at both ends of an ASCII string is the
  white space of C: the separators 0x1C to 0x1F are not part of it, so that
  \<^verbatim>\<open>int('1\x1c')\<close> raises ValueError.
\<close>

definition c_isspace :: "char \<Rightarrow> bool" where
  "c_isspace c = (c \<in> {CHR 0x09, CHR 0x0A, CHR 0x0B, CHR 0x0C, CHR 0x0D, CHR 0x20})"

text \<open>\<^verbatim>\<open>s.isdigit()\<close>: at least one character, and all of them digits.\<close>

definition str_isdigit :: "string \<Rightarrow> bool" where
  "str_isdigit s = (s \<noteq> [] \<and> list_all py_isdigit s)"

text \<open>\<^verbatim>\<open>s.strip()\<close>: the white space at both ends is removed.\<close>

definition strip :: "string \<Rightarrow> string" where
  "strip s = rev (dropWhile py_isspace (rev (dropWhile py_isspace s)))"

text \<open>\<^verbatim>\<open>s.split(sep)\<close> for a separator of one character; the result is never empty.\<close>

fun split :: "char \<Rightarrow> string \<Rightarrow> string list" where
  "split sep [] = [[]]"
| "split sep (c # cs) =
     (if c = sep then [] # split sep cs
      else (case split sep cs of
              [] \<Rightarrow> [[c]]
            | p # ps \<Rightarrow> (c # p) # ps))"

definition digit_value :: "char \<Rightarrow> int" where
  "digit_value c = int (of_char c) - 48"

definition decimal :: "string \<Rightarrow> int" where
  "decimal s = foldl (\<lambda>acc c. 10 * acc + digit_value c) 0 s"

text \<open>
  \<^verbatim>\<open>int(s)\<close>, with \<open>None\<close> for ValueError. The program calls it on pieces of a
  line that holds digits, commas and white space only, so the signs and underscores
  that \<^verbatim>\<open>int()\<close> also reads never reach it and are left out; leading zeros are
  read, \<^verbatim>\<open>int('007')\<close> being 7. The limit on the number of digits of recent
  Python versions (4300 by default) is not modelled.
\<close>

definition py_int :: "string \<Rightarrow> int option" where
  "py_int s =
     (let t = rev (dropWhile c_isspace (rev (dropWhile c_isspace s)))
      in if str_isdigit t then Some (decimal t) else None)"

text \<open>
  \<^verbatim>\<open>f.readlines()\<close> of a file opened in text mode: the text is cut after every
  line feed, and each line keeps its line feed. The text is what the file object
  delivers, that is, decoded and with the line ends already translated to line feeds.
\<close>

fun readlines :: "string \<Rightarrow> string list" where
  "readlines [] = []"
| "readlines (c # cs) =
     (if c = LF then [c] # readlines cs
      else (case readlines cs of
              [] \<Rightarrow> [[c]]
            | l # ls \<Rightarrow> (c # l) # ls))"

text \<open>\<^verbatim>\<open>str(n)\<close> of an integer.\<close>

function str_nat :: "nat \<Rightarrow> string" where
  "str_nat n =
     (if n < 10 then [char_of (48 + n)]
      else str_nat (n div 10) @ [char_of (48 + n mod 10)])"
  by pat_completeness auto
termination
  by (relation "measure id") auto

declare str_nat.simps [simp del]

definition str_int :: "int \<Rightarrow> string" where
  "str_int i = (if i < 0 then CHR ''-'' # str_nat (nat (- i)) else str_nat (nat i))"

subsection \<open>The parser: \<^verbatim>\<open>read_interference_graph_from_file\<close>\<close>

text \<open>
  The function returns either the graph or a message, a string. Each
  \<^verbatim>\<open>return\<close> of a message is one constructor of \<open>parse_error\<close>, and
  \<open>message\<close> gives the string that the source returns there.
\<close>

datatype parse_error =
    FileEmpty
  | InvalidCharacter
  | DuplicateNode int
  | OutOfOrderNode int int
  | NodeOutOfRange
  | NeighbourOutOfRange
  | MalformedInteger
  | Unexpected string

fun message :: "parse_error \<Rightarrow> string" where
  "message FileEmpty = ''Error: The file is empty.''"
| "message InvalidCharacter =
     ''Invalid file content; contains characters other than digits, commas, or end-of-line.''"
| "message (DuplicateNode node) =
     ''Error: Duplicate node definition found for node '' @ str_int node @ ''.''"
| "message (OutOfOrderNode expected_node node) =
     ''Error: Missing node definitions or nodes are not in consecutive order. Expected node ''
       @ str_int expected_node @ '', found '' @ str_int node @ ''.''"
| "message NodeOutOfRange =
     ''Node number out of range. Each node must be between 1 and 50.''"
| "message NeighbourOutOfRange =
     ''Neighbor number out of range. Each neighbor must be between 1 and 50.''"
| "message MalformedInteger = ''Invalid file content; unable to convert to integers.''"
| "message (Unexpected e) = ''Unexpected error: '' @ e"

type_synonym graph = "(int \<times> int set) list"

text \<open>
  The body of the loop over the lines, up to the store into the graph: the checks of
  one line in the order of the source. A ValueError raised by \<^verbatim>\<open>int\<close> leaves the
  loop for the handler that returns the message of \<open>MalformedInteger\<close>.
\<close>

definition parse_line :: "int \<Rightarrow> string \<Rightarrow> parse_error + (int \<times> int set)" where
  "parse_line expected_node line =
     (if \<not> list_all (\<lambda>c. py_isdigit c \<or> c = CHR '','' \<or> py_isspace c) line
      then Inl InvalidCharacter
      else
        let parts = split (CHR '','') (strip line) in
        case py_int (hd parts) of
          None \<Rightarrow> Inl MalformedInteger
        | Some node \<Rightarrow>
            if node \<noteq> expected_node then
              (if node < expected_node then Inl (DuplicateNode node)
               else Inl (OutOfOrderNode expected_node node))
            else if node < 1 \<or> node > 50 then Inl NodeOutOfRange
            else
              (case those (map py_int (filter str_isdigit (tl parts))) of
                 None \<Rightarrow> Inl MalformedInteger
               | Some neighbors \<Rightarrow>
                   if list_ex (\<lambda>n. n < 1 \<or> n > 50) neighbors
                   then Inl NeighbourOutOfRange
                   else Inr (node, set neighbors)))"

text \<open>The loop over the lines, with its two variables \<open>expected_node\<close> and \<open>graph\<close>.\<close>

fun parse_loop :: "int \<Rightarrow> graph \<Rightarrow> string list \<Rightarrow> parse_error + graph" where
  "parse_loop expected_node graph [] = Inr graph"
| "parse_loop expected_node graph (line # lines) =
     (case parse_line expected_node line of
        Inl e \<Rightarrow> Inl e
      | Inr (node, neighbors) \<Rightarrow>
          parse_loop (expected_node + 1) (AList.update node neighbors graph) lines)"

definition parse_text :: "string \<Rightarrow> parse_error + graph" where
  "parse_text text =
     (let lines = readlines text
      in if lines = [] then Inl FileEmpty else parse_loop 1 [] lines)"

text \<open>
  What opening and reading a file gives: its text, a ValueError (a file that cannot be
  decoded), or another exception with its text \<^verbatim>\<open>str(e)\<close> (a missing file).
  The text stands for the bytes of the file under the encoding of the platform, which
  is the same in all runs: files of equal bytes read as equal texts.

  The world of a run holds, for every file name, what reading the file gives and
  whether writing the file raises OSError (a path that cannot be opened for writing, a
  full disk), and the text printed so far.
\<close>

datatype read_result = Text string | RaisesValueError | Raises string

record world =
  files :: "string \<Rightarrow> read_result"
  write_raises :: "string \<Rightarrow> bool"
  stdout :: string

definition read_interference_graph_from_file :: "world \<Rightarrow> string \<Rightarrow> parse_error + graph" where
  "read_interference_graph_from_file w filename =
     (case files w filename of
        Text text \<Rightarrow> parse_text text
      | RaisesValueError \<Rightarrow> Inl MalformedInteger
      | Raises e \<Rightarrow> Inl (Unexpected e))"

subsection \<open>The ranking: \<^verbatim>\<open>rank_nodes_by_neighbours\<close>\<close>

text \<open>
  The items of the graph are extended by the number of neighbours, sorted by the key
  \<^verbatim>\<open>(-x[2], x[0])\<close> and cut back to pairs. Python's \<^verbatim>\<open>sorted\<close> is stable and so
  is \<^const>\<open>sort_key\<close>; the keys are pairs of integers in lexicographic order.
\<close>

definition rank_nodes_by_neighbours :: "graph \<Rightarrow> (int \<times> int set) list" where
  "rank_nodes_by_neighbours interference_graph =
     (let nodes_info =
            map (\<lambda>(node, neighbours). (node, neighbours, int (card neighbours)))
              interference_graph;
          ranked_nodes_info =
            sort_key (\<lambda>(node, neighbours, count). (- count, node)) nodes_info
      in map (\<lambda>(node, neighbours, count). (node, neighbours)) ranked_nodes_info)"

subsection \<open>The colourer: \<^verbatim>\<open>assign_colours\<close>\<close>

definition colours :: "char list" where
  "colours = map char_of [65 ..< 91 :: nat]"

type_synonym colour_assignment = "(int \<times> char) list"

text \<open>
  One round of the outer loop. \<^verbatim>\<open>graph[node]\<close> raises KeyError for a node that the
  graph does not hold, which is \<open>None\<close>. The set \<open>assigned_colours\<close> holds
  \<^verbatim>\<open>colour_assignment.get(neighbour)\<close> for every neighbour, that is, a colour or
  \<^verbatim>\<open>None\<close>. The inner loop stores the first colour that is not in the set; when
  it finds none, it ends without a store and the outer loop goes on.
\<close>

definition colour_node :: "graph \<Rightarrow> colour_assignment \<Rightarrow> int \<Rightarrow> colour_assignment option" where
  "colour_node graph colour_assignment node =
     (case map_of graph node of
        None \<Rightarrow> None
      | Some neighbours \<Rightarrow>
          let assigned_colours = map_of colour_assignment ` neighbours in
          (case find (\<lambda>colour. Some colour \<notin> assigned_colours) colours of
             None \<Rightarrow> Some colour_assignment
           | Some colour \<Rightarrow> Some (AList.update node colour colour_assignment)))"

fun colour_loop ::
  "graph \<Rightarrow> colour_assignment \<Rightarrow> (int \<times> int set) list \<Rightarrow> colour_assignment option" where
  "colour_loop graph colour_assignment [] = Some colour_assignment"
| "colour_loop graph colour_assignment ((node, _) # ranked) =
     (case colour_node graph colour_assignment node of
        None \<Rightarrow> None
      | Some colour_assignment' \<Rightarrow> colour_loop graph colour_assignment' ranked)"

definition assign_colours :: "graph \<Rightarrow> (int \<times> int set) list \<Rightarrow> colour_assignment option" where
  "assign_colours graph ranked_nodes_with_neighbours =
     colour_loop graph [] ranked_nodes_with_neighbours"

subsection \<open>The writer and the orchestrator: \<^verbatim>\<open>write_output_file\<close>, \<^verbatim>\<open>main\<close>\<close>

text \<open>
  The text written: the items of the assignment, sorted as pairs, one line each. When
  \<^verbatim>\<open>open(filename, 'w')\<close> or a write raises OSError, the function does not
  return, which is \<open>None\<close>; what the file holds after such a failure is not described.
\<close>

definition output_text :: "colour_assignment \<Rightarrow> string" where
  "output_text colour_assignment =
     concat (map (\<lambda>(node, colour). str_int node @ [colour] @ [LF]) (sort colour_assignment))"

definition write_output_file :: "string \<Rightarrow> colour_assignment \<Rightarrow> world \<Rightarrow> world option" where
  "write_output_file filename colour_assignment w =
     (if write_raises w filename then None
      else Some (w\<lparr>files := (files w)(filename := Text (output_text colour_assignment))\<rparr>))"

text \<open>\<^verbatim>\<open>print(s)\<close> appends the string and a line feed to the standard output.\<close>

definition print :: "string \<Rightarrow> world \<Rightarrow> world" where
  "print s w = w\<lparr>stdout := stdout w @ s @ [LF]\<rparr>"

text \<open>
  \<open>main\<close> returns the world after the run; \<open>None\<close> is a run that ends in an
  exception that \<open>main\<close> does not catch, the KeyError of the colourer or the OSError
  of the writer.
\<close>

definition main :: "string \<Rightarrow> string \<Rightarrow> world \<Rightarrow> world option" where
  "main input_filename output_filename w =
     (case read_interference_graph_from_file w input_filename of
        Inl e \<Rightarrow> Some (print (message e) w)
      | Inr graph \<Rightarrow>
          (case assign_colours graph (rank_nodes_by_neighbours graph) of
             None \<Rightarrow> None
           | Some colored_graph \<Rightarrow> write_output_file output_filename colored_graph w))"

subsection \<open>The program with the iteration order of its sets made explicit\<close>

text \<open>
  Python does not fix the order in which a \<^verbatim>\<open>set\<close> yields its elements: the order
  depends on the hash values, which for strings change from one process to the next, and
  on the history of the table. The functions below are the program once more, with
  every set as the list of its elements in the order of iteration. Where the program
  builds a set, by \<^verbatim>\<open>set(neighbors)\<close> and by the set comprehension of the colourer,
  a function given from outside turns the elements, in the order of their insertion, into
  the order of iteration; it may be any function that keeps the elements and yields each
  once. \<^verbatim>\<open>len\<close> is the length of the list and \<^verbatim>\<open>in\<close> is membership in it. A
  \<^verbatim>\<open>dict\<close> yields its items in the order of insertion, which Python fixes.
\<close>

definition iteration_order :: "('a list \<Rightarrow> 'a list) \<Rightarrow> bool" where
  "iteration_order f = (\<forall>xs. distinct (f xs) \<and> set (f xs) = set xs)"

type_synonym graph_iter = "(int \<times> int list) list"

definition parse_line_iter ::
  "(int list \<Rightarrow> int list) \<Rightarrow> int \<Rightarrow> string \<Rightarrow> parse_error + (int \<times> int list)" where
  "parse_line_iter int_set expected_node line =
     (if \<not> list_all (\<lambda>c. py_isdigit c \<or> c = CHR '','' \<or> py_isspace c) line
      then Inl InvalidCharacter
      else
        let parts = split (CHR '','') (strip line) in
        case py_int (hd parts) of
          None \<Rightarrow> Inl MalformedInteger
        | Some node \<Rightarrow>
            if node \<noteq> expected_node then
              (if node < expected_node then Inl (DuplicateNode node)
               else Inl (OutOfOrderNode expected_node node))
            else if node < 1 \<or> node > 50 then Inl NodeOutOfRange
            else
              (case those (map py_int (filter str_isdigit (tl parts))) of
                 None \<Rightarrow> Inl MalformedInteger
               | Some neighbors \<Rightarrow>
                   if list_ex (\<lambda>n. n < 1 \<or> n > 50) neighbors
                   then Inl NeighbourOutOfRange
                   else Inr (node, int_set neighbors)))"

fun parse_loop_iter ::
  "(int list \<Rightarrow> int list) \<Rightarrow> int \<Rightarrow> graph_iter \<Rightarrow> string list \<Rightarrow> parse_error + graph_iter" where
  "parse_loop_iter int_set expected_node graph [] = Inr graph"
| "parse_loop_iter int_set expected_node graph (line # lines) =
     (case parse_line_iter int_set expected_node line of
        Inl e \<Rightarrow> Inl e
      | Inr (node, neighbors) \<Rightarrow>
          parse_loop_iter int_set (expected_node + 1) (AList.update node neighbors graph) lines)"

definition read_interference_graph_from_file_iter ::
  "(int list \<Rightarrow> int list) \<Rightarrow> world \<Rightarrow> string \<Rightarrow> parse_error + graph_iter" where
  "read_interference_graph_from_file_iter int_set w filename =
     (case files w filename of
        Text text \<Rightarrow>
          (let lines = readlines text
           in if lines = [] then Inl FileEmpty else parse_loop_iter int_set 1 [] lines)
      | RaisesValueError \<Rightarrow> Inl MalformedInteger
      | Raises e \<Rightarrow> Inl (Unexpected e))"

definition rank_nodes_by_neighbours_iter :: "graph_iter \<Rightarrow> (int \<times> int list) list" where
  "rank_nodes_by_neighbours_iter interference_graph =
     (let nodes_info =
            map (\<lambda>(node, neighbours). (node, neighbours, int (length neighbours)))
              interference_graph;
          ranked_nodes_info =
            sort_key (\<lambda>(node, neighbours, count). (- count, node)) nodes_info
      in map (\<lambda>(node, neighbours, count). (node, neighbours)) ranked_nodes_info)"

definition colour_node_iter ::
  "(char option list \<Rightarrow> char option list) \<Rightarrow> graph_iter \<Rightarrow> colour_assignment \<Rightarrow> int
     \<Rightarrow> colour_assignment option" where
  "colour_node_iter colour_set graph colour_assignment node =
     (case map_of graph node of
        None \<Rightarrow> None
      | Some neighbours \<Rightarrow>
          let assigned_colours = colour_set (map (map_of colour_assignment) neighbours) in
          (case find (\<lambda>colour. Some colour \<notin> set assigned_colours) colours of
             None \<Rightarrow> Some colour_assignment
           | Some colour \<Rightarrow> Some (AList.update node colour colour_assignment)))"

fun colour_loop_iter ::
  "(char option list \<Rightarrow> char option list) \<Rightarrow> graph_iter \<Rightarrow> colour_assignment
     \<Rightarrow> (int \<times> int list) list \<Rightarrow> colour_assignment option" where
  "colour_loop_iter colour_set graph colour_assignment [] = Some colour_assignment"
| "colour_loop_iter colour_set graph colour_assignment ((node, _) # ranked) =
     (case colour_node_iter colour_set graph colour_assignment node of
        None \<Rightarrow> None
      | Some colour_assignment' \<Rightarrow> colour_loop_iter colour_set graph colour_assignment' ranked)"

definition assign_colours_iter ::
  "(char option list \<Rightarrow> char option list) \<Rightarrow> graph_iter \<Rightarrow> (int \<times> int list) list
     \<Rightarrow> colour_assignment option" where
  "assign_colours_iter colour_set graph ranked_nodes_with_neighbours =
     colour_loop_iter colour_set graph [] ranked_nodes_with_neighbours"

definition main_iter ::
  "(int list \<Rightarrow> int list) \<Rightarrow> (char option list \<Rightarrow> char option list)
     \<Rightarrow> string \<Rightarrow> string \<Rightarrow> world \<Rightarrow> world option" where
  "main_iter int_set colour_set input_filename output_filename w =
     (case read_interference_graph_from_file_iter int_set w input_filename of
        Inl e \<Rightarrow> Some (print (message e) w)
      | Inr graph \<Rightarrow>
          (case assign_colours_iter colour_set graph (rank_nodes_by_neighbours_iter graph) of
             None \<Rightarrow> None
           | Some colored_graph \<Rightarrow> write_output_file output_filename colored_graph w))"

text \<open>The graph with sets for the lists of neighbours.\<close>

definition graph_of :: "graph_iter \<Rightarrow> graph" where
  "graph_of g = map (\<lambda>(node, neighbours). (node, set neighbours)) g"

text \<open>Every list of neighbours holds each element once, as the elements of a set.\<close>

definition distinct_neighbours :: "graph_iter \<Rightarrow> bool" where
  "distinct_neighbours g = list_all (\<lambda>(node, neighbours). distinct neighbours) g"

subsection \<open>Properties of graphs and colourings\<close>

text \<open>The order of the ranking: more neighbours first, the smaller node first in a tie.\<close>

definition ranked_before :: "int \<times> int set \<Rightarrow> int \<times> int set \<Rightarrow> bool" where
  "ranked_before a b =
     (card (snd b) < card (snd a) \<or> (card (snd a) = card (snd b) \<and> fst a < fst b))"

definition rank_key :: "int \<times> int set \<Rightarrow> int \<times> int" where
  "rank_key p = (- int (card (snd p)), fst p)"

text \<open>Every neighbour stored in the graph lies between 1 and 50.\<close>

definition neighbours_in_range :: "graph \<Rightarrow> bool" where
  "neighbours_in_range g = (\<forall>(node, neighbours) \<in> set g. \<forall>n \<in> neighbours. 1 \<le> n \<and> n \<le> 50)"

text \<open>The neighbours that the graph lists for a node, \<^verbatim>\<open>graph[v]\<close> for a key.\<close>

definition neighbours_of :: "graph \<Rightarrow> int \<Rightarrow> int set" where
  "neighbours_of g v = (case map_of g v of None \<Rightarrow> {} | Some neighbours \<Rightarrow> neighbours)"

text \<open>
  A graph is symmetric when every edge between two of its nodes is listed at both ends,
  and free of loops when no node lists itself.
\<close>

definition symmetric_graph :: "graph \<Rightarrow> bool" where
  "symmetric_graph g =
     (\<forall>v \<in> set (map fst g). \<forall>u \<in> set (map fst g).
        u \<in> neighbours_of g v \<longrightarrow> v \<in> neighbours_of g u)"

definition loop_free :: "graph \<Rightarrow> bool" where
  "loop_free g = (\<forall>v \<in> set (map fst g). v \<notin> neighbours_of g v)"

text \<open>No node has the colour of a neighbour that the graph lists for it.\<close>

definition proper_colouring :: "graph \<Rightarrow> colour_assignment \<Rightarrow> bool" where
  "proper_colouring g ca =
     (\<forall>v \<in> set (map fst g). \<forall>u \<in> neighbours_of g v.
        \<forall>c. map_of ca v = Some c \<longrightarrow> map_of ca u \<noteq> Some c)"

text \<open>The graph of \<open>n\<close> nodes in which every node lists all the others.\<close>

definition complete_graph :: "int \<Rightarrow> graph" where
  "complete_graph n = map (\<lambda>v. (v, set (filter (\<lambda>u. u \<noteq> v) [1..n]))) [1..n]"

text \<open>A world for examples in which every file is empty.\<close>

definition empty_file_world :: world where
  "empty_file_world =
     \<lparr>files = (\<lambda>name. Text []), write_raises = (\<lambda>name. False), stdout = []\<rparr>"

text \<open>
  Two worlds for examples. Their input file \<^verbatim>\<open>input.txt\<close> holds the same three
  lines; the second world has other files beside it, an earlier output on the screen,
  and no file but \<^verbatim>\<open>output.txt\<close> can be written in it.
\<close>

definition first_world :: world where
  "first_world =
     \<lparr>files = (\<lambda>name. Text (''1,2,3'' @ [LF] @ ''2,1'' @ [LF] @ ''3,1'' @ [LF])),
      write_raises = (\<lambda>name. False),
      stdout = []\<rparr>"

definition second_world :: world where
  "second_world =
     \<lparr>files = (\<lambda>name. if name = ''input.txt''
                      then Text (''1,2,3'' @ [LF] @ ''2,1'' @ [LF] @ ''3,1'' @ [LF])
                      else Text ''1A''),
      write_raises = (\<lambda>name. name \<noteq> ''output.txt''),
      stdout = ''earlier''\<rparr>"

section \<open>The parser\<close>

subsection \<open>White space\<close>

lemma dropWhile_prefix: "list_all P ws \<Longrightarrow> dropWhile P (ws @ s) = dropWhile P s"
  by (induction ws) simp_all

lemma dropWhile_all: "list_all P s \<Longrightarrow> dropWhile P s = []"
  by (induction s) simp_all

lemma strip_spaces: "list_all py_isspace s \<Longrightarrow> strip s = []"
  by (simp add: strip_def dropWhile_all)

lemma strip_leading: "list_all py_isspace ws \<Longrightarrow> strip (ws @ s) = strip s"
  by (simp add: strip_def dropWhile_prefix)

lemma strip_trailing:
  assumes "list_all py_isspace ws"
  shows "strip (s @ ws) = strip s"
proof (cases "list_all py_isspace s")
  case True
  with assms have "list_all py_isspace (s @ ws)" by simp
  then have "strip (s @ ws) = []" by (rule strip_spaces)
  moreover from True have "strip s = []" by (rule strip_spaces)
  ultimately show ?thesis by simp
next
  case False
  then obtain x where "x \<in> set s" and "\<not> py_isspace x" by (auto simp: list_all_iff)
  then have "dropWhile py_isspace (s @ ws) = dropWhile py_isspace s @ ws"
    by (rule dropWhile_append1)
  moreover from assms have "list_all py_isspace (rev ws)" by (simp add: list_all_iff)
  ultimately show ?thesis by (simp add: strip_def dropWhile_prefix)
qed

lemma line_check_padded:
  assumes "list_all py_isspace ws1" and "list_all py_isspace ws2"
  shows "list_all (\<lambda>c. py_isdigit c \<or> c = CHR '','' \<or> py_isspace c) (ws1 @ line @ ws2)
         = list_all (\<lambda>c. py_isdigit c \<or> c = CHR '','' \<or> py_isspace c) line"
  using assms by (auto simp: list_all_iff)

lemma space_not_digit: "py_isspace c \<Longrightarrow> \<not> py_isdigit c"
  unfolding py_isspace_def py_isdigit_def by (elim insertE emptyE) simp_all

lemma comma_not_space: "\<not> py_isspace (CHR '','')"
  by (simp add: py_isspace_def)

lemma comma_not_digit: "\<not> py_isdigit (CHR '','')"
  by (simp add: py_isdigit_def)

lemma split_nonempty: "split sep s \<noteq> []"
  by (induction s) (auto split: list.splits)

lemma split_append: "split sep (x @ sep # r) = split sep x @ split sep r"
proof (induction x)
  case Nil
  then show ?case by simp
next
  case (Cons c x)
  obtain p ps where ps: "split sep x = p # ps"
    using split_nonempty[of sep x] by (cases "split sep x") auto
  with Cons show ?case by simp
qed

lemma split_no_sep: "sep \<notin> set t \<Longrightarrow> split sep t = [t]"
  by (induction t) auto

lemma strip_comma:
  "strip (a @ CHR '','' # b)
     = dropWhile py_isspace a @ CHR '','' # rev (dropWhile py_isspace (rev b))"
proof -
  have "dropWhile py_isspace (a @ CHR '','' # b) = dropWhile py_isspace a @ CHR '','' # b"
    by (rule dropWhile_append3) (rule comma_not_space)
  moreover have "rev (dropWhile py_isspace a @ CHR '','' # b)
      = rev b @ CHR '','' # rev (dropWhile py_isspace a)" by simp
  moreover have "dropWhile py_isspace (rev b @ CHR '','' # rev (dropWhile py_isspace a))
      = dropWhile py_isspace (rev b) @ CHR '','' # rev (dropWhile py_isspace a)"
    by (rule dropWhile_append3) (rule comma_not_space)
  ultimately show ?thesis by (simp add: strip_def)
qed

lemma rstrip_comma:
  "rev (dropWhile py_isspace (rev (t @ CHR '','' # b)))
     = t @ CHR '','' # rev (dropWhile py_isspace (rev b))"
proof -
  have "rev (t @ CHR '','' # b) = rev b @ CHR '','' # rev t" by simp
  moreover have "dropWhile py_isspace (rev b @ CHR '','' # rev t)
      = dropWhile py_isspace (rev b) @ CHR '','' # rev t"
    by (rule dropWhile_append3) (rule comma_not_space)
  ultimately show ?thesis by simp
qed

text \<open>
  The result for a line depends on the line through three things only: the check of its
  characters, the first piece of the stripped line and the later pieces that are strings
  of digits.
\<close>

lemma parse_line_cong:
  assumes "list_all (\<lambda>c. py_isdigit c \<or> c = CHR '','' \<or> py_isspace c) l1
           = list_all (\<lambda>c. py_isdigit c \<or> c = CHR '','' \<or> py_isspace c) l2"
    and "hd (split (CHR '','') (strip l1)) = hd (split (CHR '','') (strip l2))"
    and "filter str_isdigit (tl (split (CHR '','') (strip l1)))
         = filter str_isdigit (tl (split (CHR '','') (strip l2)))"
  shows "parse_line e l1 = parse_line e l2"
  by (simp only: parse_line_def Let_def assms)

lemma spaced_not_digits: "list_ex py_isspace t \<Longrightarrow> \<not> str_isdigit t"
  by (auto simp: str_isdigit_def list_ex_iff list_all_iff dest: space_not_digit)

lemma piece_no_comma:
  "list_all (\<lambda>c. py_isdigit c \<or> py_isspace c) t \<Longrightarrow> CHR '','' \<notin> set t"
  using comma_not_space comma_not_digit by (auto simp: list_all_iff)

lemma inner_piece_dropped:
  assumes sp: "list_ex py_isspace t"
    and ok: "list_all (\<lambda>c. py_isdigit c \<or> py_isspace c) t"
  shows "parse_line e (a @ CHR '','' # t @ CHR '','' # b) = parse_line e (a @ CHR '','' # b)"
proof (rule parse_line_cong)
  from ok show "list_all (\<lambda>c. py_isdigit c \<or> c = CHR '','' \<or> py_isspace c)
                  (a @ CHR '','' # t @ CHR '','' # b)
              = list_all (\<lambda>c. py_isdigit c \<or> c = CHR '','' \<or> py_isspace c) (a @ CHR '','' # b)"
    by (auto simp: list_all_iff)
next
  let ?A = "split (CHR '','') (dropWhile py_isspace a)"
  let ?B = "split (CHR '','') (rev (dropWhile py_isspace (rev b)))"
  from ok have t: "split (CHR '','') t = [t]" by (simp add: split_no_sep piece_no_comma)
  have "strip (a @ CHR '','' # t @ CHR '','' # b)
      = dropWhile py_isspace a @ CHR '','' # t @ CHR '','' # rev (dropWhile py_isspace (rev b))"
    by (simp only: strip_comma rstrip_comma)
  then have p1: "split (CHR '','') (strip (a @ CHR '','' # t @ CHR '','' # b)) = ?A @ [t] @ ?B"
    by (simp only: split_append t)
  have p2: "split (CHR '','') (strip (a @ CHR '','' # b)) = ?A @ ?B"
    by (simp add: strip_comma split_append)
  have ne: "?A \<noteq> []" by (rule split_nonempty)
  from ne show "hd (split (CHR '','') (strip (a @ CHR '','' # t @ CHR '','' # b)))
       = hd (split (CHR '','') (strip (a @ CHR '','' # b)))"
    by (simp add: p1 p2)
  from ne sp show "filter str_isdigit (tl (split (CHR '','') (strip (a @ CHR '','' # t @ CHR '','' # b))))
       = filter str_isdigit (tl (split (CHR '','') (strip (a @ CHR '','' # b))))"
    by (simp add: p1 p2 spaced_not_digits)
qed

lemma rstrip_prefix: "\<exists>r. t = rev (dropWhile P (rev t)) @ r"
proof -
  have "rev (rev (dropWhile P (rev t)) @ rev (takeWhile P (rev t))) = rev t" by simp
  then have "rev (dropWhile P (rev t)) @ rev (takeWhile P (rev t)) = t"
    by (simp only: rev_is_rev_conv)
  then show ?thesis by metis
qed

lemma rstrip_spaced_not_digits:
  assumes "t \<noteq> []" and "py_isspace (hd t)"
  shows "\<not> str_isdigit (rev (dropWhile py_isspace (rev t)))"
proof (cases "rev (dropWhile py_isspace (rev t)) = []")
  case True
  then show ?thesis by (simp add: str_isdigit_def)
next
  case False
  obtain r where r: "t = rev (dropWhile py_isspace (rev t)) @ r" using rstrip_prefix by blast
  have "hd (rev (dropWhile py_isspace (rev t)) @ r) = hd (rev (dropWhile py_isspace (rev t)))"
    using False by (rule hd_append2)
  with r have "hd (rev (dropWhile py_isspace (rev t))) = hd t" by simp
  moreover from False have "hd (rev (dropWhile py_isspace (rev t)))
      \<in> set (rev (dropWhile py_isspace (rev t)))" by (rule hd_in_set)
  ultimately have "list_ex py_isspace (rev (dropWhile py_isspace (rev t)))"
    using assms(2) by (auto simp: list_ex_iff)
  then show ?thesis by (rule spaced_not_digits)
qed

lemma last_piece_dropped:
  assumes ne: "t \<noteq> []" and sp: "py_isspace (hd t)"
    and ok: "list_all (\<lambda>c. py_isdigit c \<or> py_isspace c) t"
  shows "parse_line e (a @ CHR '','' # t) = parse_line e (a @ [CHR '',''])"
proof (rule parse_line_cong)
  from ok show "list_all (\<lambda>c. py_isdigit c \<or> c = CHR '','' \<or> py_isspace c) (a @ CHR '','' # t)
              = list_all (\<lambda>c. py_isdigit c \<or> c = CHR '','' \<or> py_isspace c) (a @ [CHR '',''])"
    by (auto simp: list_all_iff)
next
  let ?A = "split (CHR '','') (dropWhile py_isspace a)"
  let ?t = "rev (dropWhile py_isspace (rev t))"
  have "set ?t \<subseteq> set t"
  proof
    fix c assume "c \<in> set ?t"
    then have "c \<in> set (dropWhile py_isspace (rev t))" by simp
    then have "c \<in> set (rev t)" by (rule set_dropWhileD)
    then show "c \<in> set t" by simp
  qed
  moreover from ok have "CHR '','' \<notin> set t" by (rule piece_no_comma)
  ultimately have "CHR '','' \<notin> set ?t" by blast
  then have t: "split (CHR '','') ?t = [?t]" by (rule split_no_sep)
  have p1: "split (CHR '','') (strip (a @ CHR '','' # t)) = ?A @ [?t]"
    by (simp only: strip_comma split_append t)
  have "strip (a @ [CHR '','']) = dropWhile py_isspace a @ [CHR '','']"
    using strip_comma[of a "[]"] by simp
  then have p2: "split (CHR '','') (strip (a @ [CHR '',''])) = ?A @ [[]]"
    using split_append[of "CHR '',''" "dropWhile py_isspace a" "[]"] by simp
  have ne: "?A \<noteq> []" by (rule split_nonempty)
  from ne show "hd (split (CHR '','') (strip (a @ CHR '','' # t)))
       = hd (split (CHR '','') (strip (a @ [CHR '',''])))"
    by (simp add: p1 p2)
  from ne rstrip_spaced_not_digits[OF assms(1,2)]
  show "filter str_isdigit (tl (split (CHR '','') (strip (a @ CHR '','' # t))))
       = filter str_isdigit (tl (split (CHR '','') (strip (a @ [CHR '','']))))"
    by (simp add: p1 p2 str_isdigit_def)
qed

lemma c_space_is_space: "c_isspace c \<Longrightarrow> py_isspace c"
  unfolding c_isspace_def py_isspace_def by (elim insertE emptyE) simp_all

lemma digit_not_c_space: "py_isdigit c \<Longrightarrow> \<not> c_isspace c"
  using c_space_is_space space_not_digit by blast


text \<open>\<^verbatim>\<open>int\<close> of a string of digits is its decimal value.\<close>

lemma py_int_digits:
  assumes "str_isdigit t"
  shows "py_int t = Some (decimal t)"
proof -
  from assms have ne: "t \<noteq> []" and dig: "list_all py_isdigit t"
    by (simp_all add: str_isdigit_def)
  from ne dig have "py_isdigit (hd t)" by (simp add: list_all_iff)
  then have "\<not> c_isspace (hd t)" by (rule digit_not_c_space)
  then have d1: "dropWhile c_isspace t = t" by (simp add: dropWhile_eq_self_iff)
  from ne dig have "py_isdigit (last t)" by (simp add: list_all_iff)
  with ne have "\<not> c_isspace (hd (rev t))" by (simp add: hd_rev digit_not_c_space)
  then have d2: "dropWhile c_isspace (rev t) = rev t" by (simp add: dropWhile_eq_self_iff)
  from assms show ?thesis by (simp add: py_int_def d1 d2)
qed

lemma those_py_int:
  "list_all str_isdigit ts \<Longrightarrow> those (map py_int ts) = Some (map decimal ts)"
  by (induction ts) (simp_all add: py_int_digits)

lemma parse_line_neighbours:
  assumes "parse_line e line = Inr (node, neighbours)"
  shows "neighbours = set (map decimal (filter (\<lambda>t. str_isdigit t \<and> \<not> list_ex py_isspace t)
                                      (tl (split (CHR '','') (strip line)))))"
proof -
  let ?ts = "filter str_isdigit (tl (split (CHR '','') (strip line)))"
  have "list_all str_isdigit ?ts" by (simp add: list_all_iff)
  then have th: "those (map py_int ?ts) = Some (map decimal ?ts)" by (rule those_py_int)
  have "(\<lambda>t. str_isdigit t \<and> \<not> list_ex py_isspace t) = str_isdigit"
    using spaced_not_digits by auto
  then have f: "filter (\<lambda>t. str_isdigit t \<and> \<not> list_ex py_isspace t)
                  (tl (split (CHR '','') (strip line))) = ?ts" by simp
  from assms have "neighbours = set (map decimal ?ts)"
    by (auto simp: parse_line_def Let_def th split: if_splits option.splits)
  with f show ?thesis by simp
qed

text \<open>
  C5, as the code has it. White space passes the check of the characters anywhere in a
  line, but it does not always leave the result unchanged.
  \<^item> White space before and after the whole line is stripped: the line with white space
    put before it and after it gives the same result, the same node and the same set
    of neighbours, or the same error.
  \<^item> The set of neighbours of a line that parses holds exactly the values of the pieces
    after the first, between the commas of the stripped line, that are strings of
    digits; a piece that holds a white space character adds no neighbour.
  \<^item> So a neighbour with white space put next to it inside the line is not read. A
    line in which a piece of digits and white space between two commas holds a white
    space character parses like the line without this piece, \<^verbatim>\<open>1, 2,3\<close> like
    \<^verbatim>\<open>1,3\<close>; a line whose last piece, of digits and white space, begins with
    white space parses like the line cut after its last comma, \<^verbatim>\<open>1, 2\<close> like
    \<^verbatim>\<open>1,\<close>.
\<close>

theorem whitespace_in_line_effect:
  "(list_all py_isspace ws1 \<and> list_all py_isspace ws2 \<longrightarrow>
      parse_line expected_node (ws1 @ line @ ws2) = parse_line expected_node line) \<and>
   (parse_line expected_node line = Inr (node, neighbours) \<longrightarrow>
      neighbours = set (map decimal (filter (\<lambda>t. str_isdigit t \<and> \<not> list_ex py_isspace t)
                                       (tl (split (CHR '','') (strip line)))))) \<and>
   (list_ex py_isspace t \<and> list_all (\<lambda>c. py_isdigit c \<or> py_isspace c) t \<longrightarrow>
      parse_line expected_node (a @ CHR '','' # t @ CHR '','' # b)
        = parse_line expected_node (a @ CHR '','' # b)) \<and>
   (t \<noteq> [] \<and> py_isspace (hd t) \<and> list_all (\<lambda>c. py_isdigit c \<or> py_isspace c) t \<longrightarrow>
      parse_line expected_node (a @ CHR '','' # t) = parse_line expected_node (a @ [CHR '','']))"
proof (intro conjI impI)
  assume ws: "list_all py_isspace ws1 \<and> list_all py_isspace ws2"
  then have ws1: "list_all py_isspace ws1" and ws2: "list_all py_isspace ws2" by simp_all
  have "strip (ws1 @ line @ ws2) = strip line"
    using strip_trailing[OF ws2, of "ws1 @ line"] strip_leading[OF ws1, of line]
    by simp
  then show "parse_line expected_node (ws1 @ line @ ws2) = parse_line expected_node line"
    unfolding parse_line_def line_check_padded[OF ws1 ws2] by simp
next
  assume "parse_line expected_node line = Inr (node, neighbours)"
  then show "neighbours = set (map decimal (filter (\<lambda>t. str_isdigit t \<and> \<not> list_ex py_isspace t)
                                       (tl (split (CHR '','') (strip line)))))"
    by (rule parse_line_neighbours)
next
  assume "list_ex py_isspace t \<and> list_all (\<lambda>c. py_isdigit c \<or> py_isspace c) t"
  then show "parse_line expected_node (a @ CHR '','' # t @ CHR '','' # b)
        = parse_line expected_node (a @ CHR '','' # b)"
    by (simp add: inner_piece_dropped)
next
  assume "t \<noteq> [] \<and> py_isspace (hd t) \<and> list_all (\<lambda>c. py_isdigit c \<or> py_isspace c) t"
  then show "parse_line expected_node (a @ CHR '','' # t) = parse_line expected_node (a @ [CHR '',''])"
    by (simp add: last_piece_dropped)
qed

text \<open>
  The line \<^verbatim>\<open>1, 2,3\<close>, which parses to node 1 with the one neighbour 3, with a
  blank and a tab before it and a blank and a line feed after it; the piece \<^verbatim>\<open> 2\<close>
  between the commas of \<^verbatim>\<open>1, 2,3\<close> and at the end of \<^verbatim>\<open>1, 2\<close>.
\<close>

theorem whitespace_in_line_effect_witness:
  "(list_all py_isspace [CHR 0x20, CHR 0x09] \<and> list_all py_isspace [CHR 0x20, CHR 0x0A]) \<and>
   parse_line 1 ([CHR 0x20, CHR 0x09] @ ''1, 2,3'' @ [CHR 0x20, CHR 0x0A])
     = parse_line 1 ''1, 2,3'' \<and>
   parse_line 1 ''1, 2,3'' = Inr (1, {3}) \<and>
   {3} = set (map decimal (filter (\<lambda>t. str_isdigit t \<and> \<not> list_ex py_isspace t)
                             (tl (split (CHR '','') (strip ''1, 2,3''))))) \<and>
   (list_ex py_isspace '' 2'' \<and> list_all (\<lambda>c. py_isdigit c \<or> py_isspace c) '' 2'') \<and>
   parse_line 1 (''1'' @ CHR '','' # '' 2'' @ CHR '','' # ''3'')
     = parse_line 1 (''1'' @ CHR '','' # ''3'') \<and>
   ('' 2'' \<noteq> [] \<and> py_isspace (hd '' 2'') \<and>
    list_all (\<lambda>c. py_isdigit c \<or> py_isspace c) '' 2'') \<and>
   parse_line 1 (''1'' @ CHR '','' # '' 2'') = parse_line 1 (''1'' @ [CHR '',''])"
proof -
  have h1: "list_all py_isspace [CHR 0x20, CHR 0x09] \<and> list_all py_isspace [CHR 0x20, CHR 0x0A]"
    by (simp add: py_isspace_def)
  have h2: "parse_line 1 ''1, 2,3'' = Inr (1, {3})" by code_simp
  have h3: "list_ex py_isspace '' 2'' \<and> list_all (\<lambda>c. py_isdigit c \<or> py_isspace c) '' 2''"
    by (simp add: py_isspace_def py_isdigit_def)
  have h4: "'' 2'' \<noteq> [] \<and> py_isspace (hd '' 2'') \<and>
    list_all (\<lambda>c. py_isdigit c \<or> py_isspace c) '' 2''"
    by (simp add: py_isspace_def py_isdigit_def)
  note inst = whitespace_in_line_effect
    [of "[CHR 0x20, CHR 0x09]" "[CHR 0x20, CHR 0x0A]" 1 "''1, 2,3''" 1 "{3}" "'' 2''" "''1''" "''3''"]
  from inst h1 h2 h3 h4 show ?thesis by blast
qed

text \<open>
  The lines of these statements, and two lines in which white space does no harm: after
  the node, where \<^verbatim>\<open>int\<close> reads over it, and as a piece of its own.
\<close>

lemma spaced_examples:
  "parse_line 1 ''1, 2,3'' = Inr (1, {3}) \<and> parse_line 1 ''1,3'' = Inr (1, {3}) \<and>
   parse_line 1 ''1, 2'' = Inr (1, {}) \<and> parse_line 1 ''1,'' = Inr (1, {}) \<and>
   parse_line 1 ''1 ,2'' = Inr (1, {2}) \<and> parse_line 1 ''1, ,2'' = Inr (1, {2})"
  by code_simp

text \<open>
  C5 as stated fails: with a blank before the neighbour, the line \<^verbatim>\<open>1, 2\<close> parses
  to node 1 with no neighbour, whereas \<^verbatim>\<open>1,2\<close> parses to node 1 with neighbour 2.
\<close>

theorem space_before_neighbour_drops_it:
  "parse_text (''1,2'' @ [LF]) = Inr [(1, {2})] \<and>
   parse_text (''1, 2'' @ [LF]) = Inr [(1, {})] \<and>
   parse_line 1 ''1,2'' = Inr (1, {2}) \<and>
   parse_line 1 ''1, 2'' = Inr (1, {})"
  by code_simp

subsection \<open>A line of white space\<close>

text \<open>
  C10: a file whose only line is white space, such as a single line feed, is not an
  empty file. The line passes the check of the characters, is stripped to the empty
  string, and \<^verbatim>\<open>int('')\<close> raises the ValueError whose handler returns the message
  of a malformed integer.
\<close>

theorem whitespace_only_line_malformed:
  assumes "readlines text = [line]" and "list_all py_isspace line"
  shows "parse_text text = Inl MalformedInteger \<and>
         parse_text text \<noteq> Inl FileEmpty \<and>
         message MalformedInteger = ''Invalid file content; unable to convert to integers.''"
proof -
  have "parse_line 1 line = Inl MalformedInteger"
  proof -
    from assms(2) have "strip line = []" by (rule strip_spaces)
    moreover have "py_int [] = None" by (simp add: py_int_def str_isdigit_def)
    moreover from assms(2)
    have "list_all (\<lambda>c. py_isdigit c \<or> c = CHR '','' \<or> py_isspace c) line"
      by (auto simp: list_all_iff)
    ultimately show ?thesis by (simp add: parse_line_def)
  qed
  then show ?thesis by (simp add: parse_text_def assms(1))
qed

theorem whitespace_only_line_malformed_witness:
  "readlines [LF] = [[LF]] \<and> list_all py_isspace [LF] \<and>
   parse_text [LF] = Inl MalformedInteger \<and>
   parse_text [LF] \<noteq> Inl FileEmpty \<and>
   message MalformedInteger = ''Invalid file content; unable to convert to integers.''"
proof -
  have h1: "readlines [LF] = [[LF]]" by simp
  have h2: "list_all py_isspace [LF]" by (simp add: py_isspace_def LF_def)
  from whitespace_only_line_malformed[OF h1 h2] h1 h2 show ?thesis by blast
qed

subsection \<open>The classification of range errors\<close>

text \<open>
  The check of the order of the nodes comes before the check of the range, so the
  range check of the node sees a node that equals \<open>expected_node\<close>: its branch
  \<^verbatim>\<open>node < 1\<close> is never taken.
\<close>

lemma node_range_error_only_above:
  assumes "parse_line expected_node line = Inl NodeOutOfRange" and "1 \<le> expected_node"
  shows "50 < expected_node"
  using assms
  by (auto simp: parse_line_def Let_def split: if_splits option.splits)

text \<open>
  C4: a neighbour 51 gives the error of a neighbour out of range, as claimed. A line that
  declares node 0 does not give the error of a node out of range: the order check
  answers first, with the message of a duplicate node.
\<close>

theorem node_zero_reported_as_duplicate:
  "parse_text (''1,51'' @ [LF]) = Inl NeighbourOutOfRange \<and>
   parse_text (''0'' @ [LF]) = Inl (DuplicateNode 0) \<and>
   parse_text (''0'' @ [LF]) \<noteq> Inl NodeOutOfRange \<and>
   message (DuplicateNode 0) = ''Error: Duplicate node definition found for node 0.''"
  by code_simp

subsection \<open>The graph that the parser returns\<close>

lemma update_fresh: "k \<notin> fst ` set al \<Longrightarrow> AList.update k v al = al @ [(k, v)]"
  by (induction al) auto

lemma parse_line_Inr:
  assumes "parse_line e line = Inr (node, nbrs)"
  shows "node = e \<and> 1 \<le> e \<and> e \<le> 50 \<and> (\<forall>n \<in> nbrs. 1 \<le> n \<and> n \<le> 50)"
  using assms
  by (auto simp: parse_line_def Let_def list_ex_iff split: if_splits option.splits)

lemma parse_loop_keys:
  assumes "parse_loop e g0 lines = Inr g" and "map fst g0 = [1..e - 1]"
  shows "map fst g = [1..e - 1 + int (length lines)]"
  using assms
proof (induction lines arbitrary: e g0)
  case Nil
  then show ?case by simp
next
  case (Cons line lines)
  from Cons.prems(1) obtain node nbrs where
    pl: "parse_line e line = Inr (node, nbrs)" and
    rest: "parse_loop (e + 1) (AList.update node nbrs g0) lines = Inr g"
    by (auto split: sum.splits)
  from parse_line_Inr[OF pl] have node: "node = e" and e: "1 \<le> e" by auto
  have "e \<notin> fst ` set g0"
  proof -
    have "fst ` set g0 = set (map fst g0)" by simp
    also have "\<dots> = {1..e - 1}" by (simp add: Cons.prems(2))
    finally show ?thesis by simp
  qed
  then have upd: "AList.update node nbrs g0 = g0 @ [(e, nbrs)]"
    by (simp add: node update_fresh)
  have "map fst (AList.update node nbrs g0) = [1..(e + 1) - 1]"
    using e by (simp add: upd Cons.prems(2) upto_rec2)
  from Cons.IH[OF rest this] show ?case by (simp add: algebra_simps)
qed

lemma parse_loop_range:
  assumes "parse_loop e g0 lines = Inr g" and "neighbours_in_range g0"
  shows "neighbours_in_range g"
  using assms
proof (induction lines arbitrary: e g0)
  case Nil
  then show ?case by simp
next
  case (Cons line lines)
  from Cons.prems(1) obtain node nbrs where
    pl: "parse_line e line = Inr (node, nbrs)" and
    rest: "parse_loop (e + 1) (AList.update node nbrs g0) lines = Inr g"
    by (auto split: sum.splits)
  from parse_line_Inr[OF pl] have nb: "\<forall>n \<in> nbrs. 1 \<le> n \<and> n \<le> 50" by auto
  have "neighbours_in_range (AList.update node nbrs g0)"
    using Cons.prems(2) nb
    by (induction g0) (auto simp: neighbours_in_range_def)
  from Cons.IH[OF rest this] show ?case .
qed

lemma parse_text_graph:
  assumes "parse_text text = Inr g"
  shows "map fst g = [1..int (length (readlines text))] \<and> readlines text \<noteq> [] \<and>
         neighbours_in_range g"
proof -
  from assms have ne: "readlines text \<noteq> []" and
    loop: "parse_loop 1 [] (readlines text) = Inr g"
    by (auto simp: parse_text_def Let_def split: if_splits)
  from parse_loop_keys[OF loop] have "map fst g = [1..int (length (readlines text))]" by simp
  moreover from parse_loop_range[OF loop] have "neighbours_in_range g"
    by (simp add: neighbours_in_range_def)
  ultimately show ?thesis using ne by simp
qed

lemma read_Text:
  "files w filename = Text text \<Longrightarrow> read_interference_graph_from_file w filename = parse_text text"
  by (simp add: read_interference_graph_from_file_def)

text \<open>
  C9: when the parser returns a graph, the file was read, the keys of the graph are the
  integers from 1 to the number of lines of the file, in this order, there is at least
  one line, and every neighbour stored in the graph lies between 1 and 50.
\<close>

theorem parsed_graph_invariant:
  assumes "read_interference_graph_from_file w filename = Inr g"
  shows "\<exists>text. files w filename = Text text \<and>
           map fst g = [1..int (length (readlines text))] \<and>
           set (map fst g) = {1..int (length (readlines text))} \<and>
           readlines text \<noteq> [] \<and> g \<noteq> [] \<and>
           neighbours_in_range g"
proof -
  from assms obtain t where rd: "files w filename = Text t"
    by (auto simp: read_interference_graph_from_file_def split: read_result.splits)
  with assms have "parse_text t = Inr g" by (simp add: read_Text)
  from parse_text_graph[OF this]
  have keys: "map fst g = [1..int (length (readlines t))]"
    and ne: "readlines t \<noteq> []" and rng: "neighbours_in_range g" by simp_all
  from keys have "set (map fst g) = {1..int (length (readlines t))}" by simp
  moreover from keys ne have "g \<noteq> []" by auto
  ultimately show ?thesis using rd keys ne rng by blast
qed

theorem parsed_graph_invariant_witness:
  "read_interference_graph_from_file
     \<lparr>files = (\<lambda>name. Text (''1,2'' @ [LF] @ ''2,1'' @ [LF])),
       write_raises = (\<lambda>name. False), stdout = []\<rparr> ''input.txt''
     = Inr [(1, {2}), (2, {1})] \<and>
   (\<exists>text. files \<lparr>files = (\<lambda>name. Text (''1,2'' @ [LF] @ ''2,1'' @ [LF])),
       write_raises = (\<lambda>name. False), stdout = []\<rparr>
            ''input.txt'' = Text text \<and>
      map fst [(1 :: int, {2 :: int}), (2, {1})] = [1..int (length (readlines text))] \<and>
      set (map fst [(1 :: int, {2 :: int}), (2, {1})]) = {1..int (length (readlines text))} \<and>
      readlines text \<noteq> [] \<and> [(1 :: int, {2 :: int}), (2, {1})] \<noteq> [] \<and>
      neighbours_in_range [(1, {2}), (2, {1})])"
proof -
  have h: "read_interference_graph_from_file
     \<lparr>files = (\<lambda>name. Text (''1,2'' @ [LF] @ ''2,1'' @ [LF])),
       write_raises = (\<lambda>name. False), stdout = []\<rparr> ''input.txt''
     = Inr [(1, {2}), (2, {1})]"
    by code_simp
  from parsed_graph_invariant[OF h] h show ?thesis by blast
qed

section \<open>The ranking\<close>

lemma rank_key_less: "rank_key a < rank_key b \<longleftrightarrow> ranked_before a b"
  by (auto simp: rank_key_def ranked_before_def less_prod_def)

lemma insort_key_map_commute:
  "insort_key k (f x) (map f xs) = map f (insort_key (\<lambda>y. k (f y)) x xs)"
  by (induction xs) simp_all

lemma sort_key_map_commute:
  "sort_key k (map f xs) = map f (sort_key (\<lambda>y. k (f y)) xs)"
  by (induction xs) (simp_all add: insort_key_map_commute)

text \<open>The three steps of the function amount to one sort of the items by \<open>rank_key\<close>.\<close>

lemma rank_as_sort_key: "rank_nodes_by_neighbours g = sort_key rank_key g"
proof -
  let ?f = "\<lambda>(node, neighbours). (node, neighbours, int (card neighbours))"
  let ?k = "\<lambda>(node :: int, neighbours :: int set, count :: int). (- count, node)"
  let ?h = "\<lambda>(node :: int, neighbours :: int set, count :: int). (node, neighbours)"
  have k: "?k \<circ> ?f = rank_key" by (auto simp: rank_key_def fun_eq_iff)
  have "sort_key ?k (map ?f g) = map ?f (sort_key (?k \<circ> ?f) g)"
    by (simp add: sort_key_map_commute comp_def)
  then have "map ?h (sort_key ?k (map ?f g)) = map (?h \<circ> ?f) (sort_key rank_key g)"
    by (simp add: k)
  also have "?h \<circ> ?f = id" by (auto simp: fun_eq_iff)
  finally show ?thesis by (simp add: rank_nodes_by_neighbours_def)
qed

lemma mset_rank: "mset (rank_nodes_by_neighbours g) = mset g"
  by (simp add: rank_as_sort_key)

lemma set_rank: "set (rank_nodes_by_neighbours g) = set g"
  by (simp add: rank_as_sort_key)

lemma distinct_rank:
  assumes "distinct (map fst g)"
  shows "distinct (map fst (rank_nodes_by_neighbours g))"
proof -
  have "mset (map fst (rank_nodes_by_neighbours g)) = mset (map fst g)"
    by (simp add: mset_rank)
  then show ?thesis using assms by (metis mset_eq_imp_distinct_iff)
qed

lemma sorted_rank:
  assumes "distinct (map fst g)"
  shows "sorted_wrt ranked_before (rank_nodes_by_neighbours g)"
proof -
  let ?r = "rank_nodes_by_neighbours g"
  from distinct_rank[OF assms] have "distinct (map rank_key ?r)"
    by (simp add: distinct_map inj_on_def rank_key_def)
  moreover have "sorted (map rank_key ?r)" by (simp add: rank_as_sort_key)
  ultimately have "sorted_wrt (<) (map rank_key ?r)" by (simp add: strict_sorted_iff)
  then show ?thesis by (simp add: sorted_wrt_map rank_key_less)
qed

text \<open>
  C7: for every graph, a dict and so with distinct keys, the ranking holds the items of
  the graph and nothing else, each node once and with its own set of neighbours, and it
  is strictly ordered: of two entries the earlier has more neighbours, or as many and
  the smaller node.
\<close>

theorem rank_nodes_by_neighbours_spec:
  assumes "distinct (map fst g)"
  shows "mset (rank_nodes_by_neighbours g) = mset g \<and>
         length (rank_nodes_by_neighbours g) = length g \<and>
         distinct (map fst (rank_nodes_by_neighbours g)) \<and>
         sorted_wrt ranked_before (rank_nodes_by_neighbours g)"
proof -
  have "length (rank_nodes_by_neighbours g) = length g"
    by (simp add: rank_as_sort_key)
  with mset_rank[of g] distinct_rank[OF assms] sorted_rank[OF assms] show ?thesis by simp
qed

theorem rank_nodes_by_neighbours_spec_witness:
  "distinct (map fst [(1 :: int, {2 :: int}), (2, {1, 3}), (3, {2})]) \<and>
   mset (rank_nodes_by_neighbours [(1, {2}), (2, {1, 3}), (3, {2})])
     = mset [(1, {2}), (2, {1, 3}), (3, {2})] \<and>
   length (rank_nodes_by_neighbours [(1, {2}), (2, {1, 3}), (3, {2})])
     = length [(1 :: int, {2 :: int}), (2, {1, 3}), (3, {2})] \<and>
   distinct (map fst (rank_nodes_by_neighbours [(1, {2}), (2, {1, 3}), (3, {2})])) \<and>
   sorted_wrt ranked_before (rank_nodes_by_neighbours [(1, {2}), (2, {1, 3}), (3, {2})])"
proof -
  have h: "distinct (map fst [(1 :: int, {2 :: int}), (2, {1, 3}), (3, {2})])" by simp
  from rank_nodes_by_neighbours_spec[OF h] h show ?thesis by blast
qed

text \<open>The ranking of that graph: node 2 with its two neighbours first, then 1 and 3.\<close>

lemma rank_example:
  "rank_nodes_by_neighbours [(1, {2}), (2, {1, 3}), (3, {2})]
     = [(2, {1, 3}), (1, {2}), (3, {2})]"
  by code_simp

section \<open>The colourer\<close>

lemma colours_alphabet: "colours = ''ABCDEFGHIJKLMNOPQRSTUVWXYZ''"
  by code_simp

subsection \<open>The colourer raises no exception on a ranking of its graph\<close>

lemma colour_node_defined:
  assumes "node \<in> set (map fst g)"
  shows "\<exists>ca'. colour_node g ca node = Some ca'"
proof -
  from assms obtain nbrs where "map_of g node = Some nbrs"
    by (metis map_of_eq_None_iff not_None_eq set_map)
  then show ?thesis
    by (simp add: colour_node_def Let_def split: option.splits)
qed

lemma colour_loop_defined:
  assumes "set (map fst ranked) \<subseteq> set (map fst g)"
  shows "\<exists>ca'. colour_loop g ca ranked = Some ca'"
  using assms
proof (induction ranked arbitrary: ca)
  case Nil
  then show ?case by simp
next
  case (Cons p ranked)
  obtain node nbrs where p: "p = (node, nbrs)" by (cases p)
  with Cons.prems have "node \<in> set (map fst g)" by simp
  from colour_node_defined[OF this] obtain ca1 where "colour_node g ca node = Some ca1" by blast
  moreover from Cons.prems have "set (map fst ranked) \<subseteq> set (map fst g)" by simp
  from Cons.IH[OF this] obtain ca2 where "colour_loop g ca1 ranked = Some ca2" by blast
  ultimately show ?case by (simp add: p)
qed

lemma assign_colours_defined: "\<exists>ca. assign_colours g (rank_nodes_by_neighbours g) = Some ca"
proof -
  have "set (map fst (rank_nodes_by_neighbours g)) \<subseteq> set (map fst g)"
    by (simp add: set_rank)
  from colour_loop_defined[OF this] show ?thesis by (simp add: assign_colours_def)
qed

subsection \<open>Symmetric graphs are coloured properly\<close>

lemma colour_node_proper:
  assumes sym: "symmetric_graph g" and lf: "loop_free g"
    and node: "node \<in> set (map fst g)"
    and proper: "proper_colouring g ca"
    and step: "colour_node g ca node = Some ca'"
  shows "proper_colouring g ca'"
proof -
  from node obtain nbrs where nbrs: "map_of g node = Some nbrs"
    by (metis map_of_eq_None_iff not_None_eq set_map)
  then have nof: "neighbours_of g node = nbrs" by (simp add: neighbours_of_def)
  show ?thesis
  proof (cases "find (\<lambda>colour. Some colour \<notin> map_of ca ` nbrs) colours")
    case None
    with step nbrs have "ca' = ca" by (simp add: colour_node_def)
    with proper show ?thesis by simp
  next
    case (Some c)
    with step nbrs have ca': "ca' = AList.update node c ca" by (simp add: colour_node_def)
    from Some have unused: "Some c \<notin> map_of ca ` nbrs" by (auto simp: find_Some_iff)
    have look: "map_of ca' = (map_of ca)(node \<mapsto> c)" by (simp add: ca' update_conv')
    show ?thesis
      unfolding proper_colouring_def
    proof (intro ballI allI impI)
      fix v u d
      assume v: "v \<in> set (map fst g)" and u: "u \<in> neighbours_of g v"
        and d: "map_of ca' v = Some d"
      show "map_of ca' u \<noteq> Some d"
      proof (cases "v = node")
        case True
        with d look have dc: "d = c" by simp
        from True u nof have un: "u \<in> nbrs" by simp
        from lf node nof have "node \<notin> nbrs" by (auto simp: loop_free_def)
        with un have "u \<noteq> node" by auto
        with look have "map_of ca' u = map_of ca u" by simp
        with unused un dc show ?thesis by (metis imageI)
      next
        case False
        with d look have dv: "map_of ca v = Some d" by simp
        show ?thesis
        proof (cases "u = node")
          case True
          with sym v node u have "v \<in> neighbours_of g node" by (auto simp: symmetric_graph_def)
          with nof have "v \<in> nbrs" by simp
          with dv have "Some d \<in> map_of ca ` nbrs" by (metis imageI)
          with unused have "d \<noteq> c" by auto
          with True look show ?thesis by simp
        next
          case False
          with look have "map_of ca' u = map_of ca u" by simp
          with proper v u dv show ?thesis by (auto simp: proper_colouring_def)
        qed
      qed
    qed
  qed
qed

lemma colour_loop_proper:
  assumes "symmetric_graph g" and "loop_free g"
    and "set (map fst ranked) \<subseteq> set (map fst g)"
    and "proper_colouring g ca"
    and "colour_loop g ca ranked = Some ca'"
  shows "proper_colouring g ca'"
  using assms(3-5)
proof (induction ranked arbitrary: ca)
  case Nil
  then show ?case by simp
next
  case (Cons p ranked)
  obtain node nbrs where p: "p = (node, nbrs)" by (cases p)
  with Cons.prems(1) have node: "node \<in> set (map fst g)" and
    rest: "set (map fst ranked) \<subseteq> set (map fst g)" by simp_all
  from Cons.prems(3) p obtain ca1 where
    step: "colour_node g ca node = Some ca1" and loop: "colour_loop g ca1 ranked = Some ca'"
    by (auto split: option.splits)
  from colour_node_proper[OF assms(1,2) node Cons.prems(2) step]
  have "proper_colouring g ca1" .
  from Cons.IH[OF rest this loop] show ?case .
qed

lemma assign_colours_proper:
  assumes "symmetric_graph g" and "loop_free g"
  shows "\<exists>ca. assign_colours g (rank_nodes_by_neighbours g) = Some ca \<and> proper_colouring g ca"
proof -
  from assign_colours_defined obtain ca where
    ca: "assign_colours g (rank_nodes_by_neighbours g) = Some ca" by blast
  have sub: "set (map fst (rank_nodes_by_neighbours g)) \<subseteq> set (map fst g)"
    by (simp add: set_rank)
  have "proper_colouring g []" by (simp add: proper_colouring_def)
  from colour_loop_proper[OF assms sub this] ca have "proper_colouring g ca"
    by (simp add: assign_colours_def)
  with ca show ?thesis by blast
qed

text \<open>
  C1, as the code has it. For every input that parses to a graph in which every edge
  between two nodes is listed at both ends and no node lists itself, the colourer
  returns an assignment, and in it no node has the colour of a neighbour listed for it.
\<close>

theorem symmetric_input_properly_coloured:
  assumes "parse_text text = Inr g" and "symmetric_graph g" and "loop_free g"
  shows "\<exists>ca. assign_colours g (rank_nodes_by_neighbours g) = Some ca \<and> proper_colouring g ca"
  using assms(2,3) by (rule assign_colours_proper)

theorem symmetric_input_properly_coloured_witness:
  "parse_text (''1,2,3'' @ [LF] @ ''2,1,3'' @ [LF] @ ''3,1,2'' @ [LF])
     = Inr [(1, {2, 3}), (2, {1, 3}), (3, {1, 2})] \<and>
   symmetric_graph [(1, {2, 3}), (2, {1, 3}), (3, {1, 2})] \<and>
   loop_free [(1, {2, 3}), (2, {1, 3}), (3, {1, 2})] \<and>
   (\<exists>ca. assign_colours [(1, {2, 3}), (2, {1, 3}), (3, {1, 2})]
            (rank_nodes_by_neighbours [(1, {2, 3}), (2, {1, 3}), (3, {1, 2})]) = Some ca \<and>
         proper_colouring [(1, {2, 3}), (2, {1, 3}), (3, {1, 2})] ca)"
proof -
  have h1: "parse_text (''1,2,3'' @ [LF] @ ''2,1,3'' @ [LF] @ ''3,1,2'' @ [LF])
     = Inr [(1, {2, 3}), (2, {1, 3}), (3, {1, 2})]"
    by code_simp
  have h2: "symmetric_graph [(1, {2, 3}), (2, {1, 3}), (3, {1, 2})]"
    by (simp add: symmetric_graph_def neighbours_of_def)
  have h3: "loop_free [(1, {2, 3}), (2, {1, 3}), (3, {1, 2})]"
    by (simp add: loop_free_def neighbours_of_def)
  from symmetric_input_properly_coloured[OF h1 h2 h3] h1 h2 h3 show ?thesis by blast
qed

text \<open>
  C1 as stated fails for an edge that is declared at one end only. In the input of the
  two lines \<^verbatim>\<open>1,2\<close> and \<^verbatim>\<open>2\<close>, node 1 lists node 2 and is coloured first, when
  node 2 has no colour yet; node 2 lists nobody and gets the same colour A.
\<close>

theorem one_sided_edge_shares_colour:
  "parse_text (''1,2'' @ [LF] @ ''2'' @ [LF]) = Inr [(1, {2}), (2, {})] \<and>
   assign_colours [(1, {2}), (2, {})] (rank_nodes_by_neighbours [(1, {2}), (2, {})])
     = Some [(1, CHR ''A''), (2, CHR ''A'')] \<and>
   2 \<in> neighbours_of [(1, {2}), (2, {})] 1 \<and>
   map_of [(1 :: int, CHR ''A''), (2, CHR ''A'')] 1 = map_of [(1, CHR ''A''), (2, CHR ''A'')] 2 \<and>
   \<not> proper_colouring [(1, {2}), (2, {})] [(1, CHR ''A''), (2, CHR ''A'')]"
proof -
  have "parse_text (''1,2'' @ [LF] @ ''2'' @ [LF]) = Inr [(1, {2}), (2, {})]"
    by code_simp
  moreover have
    "assign_colours [(1, {2}), (2, {})] (rank_nodes_by_neighbours [(1, {2}), (2, {})])
       = Some [(1, CHR ''A''), (2, CHR ''A'')]"
    by code_simp
  moreover have "\<not> proper_colouring [(1, {2}), (2, {})] [(1, CHR ''A''), (2, CHR ''A'')]"
    by (simp add: proper_colouring_def neighbours_of_def)
  ultimately show ?thesis by (simp add: neighbours_of_def)
qed

subsection \<open>The input of the three lines 1,2,3 and 2,1 and 3,1\<close>

text \<open>
  C3, as the code has it. For the input whose three lines are \<^verbatim>\<open>1,2,3\<close>,
  \<^verbatim>\<open>2,1\<close> and \<^verbatim>\<open>3,1\<close>, the graph is the path 2 - 1 - 3, the ranking is 1, 2, 3,
  and the colourer gives A to node 1, B to node 2 and B to node 3: nodes 2 and 3 are
  not neighbours, and both take the first colour that node 1 does not have. The text
  written has the lines 1A, 2B and 3B.
\<close>

theorem path_input_colouring:
  "parse_text (''1,2,3'' @ [LF] @ ''2,1'' @ [LF] @ ''3,1'' @ [LF])
     = Inr [(1, {2, 3}), (2, {1}), (3, {1})] \<and>
   rank_nodes_by_neighbours [(1, {2, 3}), (2, {1}), (3, {1})]
     = [(1, {2, 3}), (2, {1}), (3, {1})] \<and>
   assign_colours [(1, {2, 3}), (2, {1}), (3, {1})]
     (rank_nodes_by_neighbours [(1, {2, 3}), (2, {1}), (3, {1})])
     = Some [(1, CHR ''A''), (2, CHR ''B''), (3, CHR ''B'')] \<and>
   output_text [(1, CHR ''A''), (2, CHR ''B''), (3, CHR ''B'')]
     = ''1A'' @ [LF] @ ''2B'' @ [LF] @ ''3B'' @ [LF]"
  by code_simp

text \<open>C3 as stated fails: the colour of node 3 is B, not C.\<close>

theorem path_input_node_3_not_C:
  "parse_text (''1,2,3'' @ [LF] @ ''2,1'' @ [LF] @ ''3,1'' @ [LF])
     = Inr [(1, {2, 3}), (2, {1}), (3, {1})] \<and>
   assign_colours [(1, {2, 3}), (2, {1}), (3, {1})]
     (rank_nodes_by_neighbours [(1, {2, 3}), (2, {1}), (3, {1})])
     = Some [(1, CHR ''A''), (2, CHR ''B''), (3, CHR ''B'')] \<and>
   map_of [(1 :: int, CHR ''A''), (2, CHR ''B''), (3, CHR ''B'')] 3 \<noteq> Some (CHR ''C'')"
  by code_simp

subsection \<open>A node whose neighbours hold all 26 colours\<close>

lemma colour_node_exhausted:
  assumes "map_of graph node = Some neighbours"
    and "list_all (\<lambda>colour. Some colour \<in> map_of colour_assignment ` neighbours) colours"
  shows "colour_node graph colour_assignment node = Some colour_assignment"
proof -
  from assms(2)
  have "find (\<lambda>colour. Some colour \<notin> map_of colour_assignment ` neighbours) colours = None"
    by (simp add: find_None_iff list_all_iff)
  with assms(1) show ?thesis by (simp add: colour_node_def)
qed

lemma complete_graph_27_colouring:
  "assign_colours (complete_graph 27) (rank_nodes_by_neighbours (complete_graph 27))
     = Some (zip [1..26] ''ABCDEFGHIJKLMNOPQRSTUVWXYZ'')"
  by code_simp

text \<open>
  C2, as the code has it. When the neighbours of a node hold all 26 colours, the inner
  loop ends without a store: the round returns the assignment as it was, no error is
  reported, and the colourer goes on. For the complete graph of 27 nodes the colourer
  returns the assignment of A to Z to the nodes 1 to 26, in which node 27, the last of
  the ranking, has no colour.
\<close>

theorem exhausted_node_left_uncoloured:
  "(map_of graph node = Some neighbours \<and>
    list_all (\<lambda>colour. Some colour \<in> map_of colour_assignment ` neighbours) colours \<longrightarrow>
      colour_node graph colour_assignment node = Some colour_assignment) \<and>
   assign_colours (complete_graph 27) (rank_nodes_by_neighbours (complete_graph 27))
     = Some (zip [1..26] colours) \<and>
   map_of (zip [1..26] colours) 27 = None"
proof (intro conjI impI)
  assume "map_of graph node = Some neighbours \<and>
    list_all (\<lambda>colour. Some colour \<in> map_of colour_assignment ` neighbours) colours"
  then show "colour_node graph colour_assignment node = Some colour_assignment"
    by (simp add: colour_node_exhausted)
next
  show "assign_colours (complete_graph 27) (rank_nodes_by_neighbours (complete_graph 27))
     = Some (zip [1..26] colours)"
    by (simp only: complete_graph_27_colouring colours_alphabet)
next
  show "map_of (zip [1..26] colours) 27 = None"
    by code_simp
qed

text \<open>
  The last round on the complete graph of 27 nodes: the nodes 1 to 26 hold A to Z, and
  node 27 lists them all.
\<close>

theorem exhausted_node_left_uncoloured_witness:
  "(map_of (complete_graph 27) 27 = Some {1..26} \<and>
    list_all (\<lambda>colour. Some colour \<in> map_of (zip [1..26] colours) ` {1..26}) colours) \<and>
   colour_node (complete_graph 27) (zip [1..26] colours) 27 = Some (zip [1..26] colours) \<and>
   assign_colours (complete_graph 27) (rank_nodes_by_neighbours (complete_graph 27))
     = Some (zip [1..26] colours) \<and>
   map_of (zip [1..26] colours) 27 = None"
proof -
  have h: "map_of (complete_graph 27) 27 = Some {1..26} \<and>
    list_all (\<lambda>colour. Some colour \<in> map_of (zip [1..26] colours) ` {1..26}) colours"
    by code_simp
  note inst = exhausted_node_left_uncoloured
    [of "complete_graph 27" 27 "{1..26}" "zip [1..26] colours"]
  from inst h show ?thesis by blast
qed

text \<open>
  C2 as stated fails: on the complete graph of 27 nodes the colourer reports no error.
  It returns an assignment, and the assignment has no entry for node 27.
\<close>

theorem complete_graph_27_no_error:
  "assign_colours (complete_graph 27) (rank_nodes_by_neighbours (complete_graph 27))
     = Some (zip [1..26] ''ABCDEFGHIJKLMNOPQRSTUVWXYZ'') \<and>
   map_of (zip [1..26] ''ABCDEFGHIJKLMNOPQRSTUVWXYZ'') 27 = None \<and>
   length (zip [1..26] ''ABCDEFGHIJKLMNOPQRSTUVWXYZ'') = 26"
proof -
  have "map_of (zip [1..26] ''ABCDEFGHIJKLMNOPQRSTUVWXYZ'') 27 = None"
    by code_simp
  moreover have "length (zip [1..26] ''ABCDEFGHIJKLMNOPQRSTUVWXYZ'') = 26"
    by code_simp
  ultimately show ?thesis using complete_graph_27_colouring by simp
qed

section \<open>The orchestrator\<close>

text \<open>
  The two ways of a run: the parser fails and the message is printed, or the graph is
  coloured, the colourer raising no KeyError, and the text is written unless the writer
  raises OSError.
\<close>

lemma main_cases:
  "(\<exists>e. read_interference_graph_from_file w input_filename = Inl e \<and>
        main input_filename output_filename w = Some (w\<lparr>stdout := stdout w @ message e @ [LF]\<rparr>)) \<or>
   (\<exists>g ca. read_interference_graph_from_file w input_filename = Inr g \<and>
        assign_colours g (rank_nodes_by_neighbours g) = Some ca \<and>
        main input_filename output_filename w
          = (if write_raises w output_filename then None
             else Some (w\<lparr>files := (files w)(output_filename := Text (output_text ca))\<rparr>)))"
proof (cases "read_interference_graph_from_file w input_filename")
  case (Inl e)
  then show ?thesis by (simp add: main_def print_def)
next
  case (Inr g)
  from assign_colours_defined obtain ca where
    "assign_colours g (rank_nodes_by_neighbours g) = Some ca" by blast
  with Inr show ?thesis by (simp add: main_def write_output_file_def)
qed

lemma main_returns:
  assumes "\<not> write_raises w output_filename"
  shows "\<exists>w'. main input_filename output_filename w = Some w'"
  using main_cases[of w input_filename output_filename] assms by auto

text \<open>
  C6: when the parser returns an error, \<open>main\<close> ends with the message of the error
  and a line feed added to the standard output and with every file as it was, the
  output file included; nothing is ranked, coloured or written. An empty input file is
  such a failure, with the message of the empty file.
\<close>

theorem main_parse_failure:
  "(read_interference_graph_from_file w input_filename = Inl e \<longrightarrow>
      (\<exists>w'. main input_filename output_filename w = Some w' \<and>
            stdout w' = stdout w @ message e @ [LF] \<and>
            files w' = files w)) \<and>
   (files w input_filename = Text [] \<longrightarrow>
      read_interference_graph_from_file w input_filename = Inl FileEmpty \<and>
      message FileEmpty = ''Error: The file is empty.'')"
  by (simp add: main_def print_def read_interference_graph_from_file_def parse_text_def)

theorem main_parse_failure_witness:
  "files empty_file_world ''input.txt'' = Text [] \<and>
   read_interference_graph_from_file empty_file_world ''input.txt'' = Inl FileEmpty \<and>
   (\<exists>w'. main ''input.txt'' ''output.txt'' empty_file_world = Some w' \<and>
         stdout w' = stdout empty_file_world @ message FileEmpty @ [LF] \<and>
         files w' = files empty_file_world) \<and>
   message FileEmpty = ''Error: The file is empty.''"
proof -
  have h1: "files empty_file_world ''input.txt'' = Text []"
    by (simp add: empty_file_world_def)
  note inst = main_parse_failure
    [of empty_file_world "''input.txt''" FileEmpty "''output.txt''"]
  from inst h1 show ?thesis by blast
qed

section \<open>The order of iteration of the sets has no influence\<close>

text \<open>
  The program with explicit orders of iteration computes, for every choice of the orders,
  what the program with sets computes: the parser the same graph up to the order within
  the lists of neighbours, the ranking the same order of the nodes, the colourer the
  same assignment, and \<open>main\<close> the same world.
\<close>

lemma graph_of_update:
  "graph_of (AList.update k v g) = AList.update k (set v) (graph_of g)"
  by (induction g) (auto simp: graph_of_def)

lemma map_of_graph_of: "map_of (graph_of g) node = map_option set (map_of g node)"
  by (induction g) (auto simp: graph_of_def)

lemma parse_line_iter_refines:
  assumes "iteration_order int_set"
  shows "parse_line e line
           = map_sum id (\<lambda>(node, neighbours). (node, set neighbours))
               (parse_line_iter int_set e line)"
proof -
  from assms have "\<And>xs. set (int_set xs) = set xs" by (simp add: iteration_order_def)
  then show ?thesis
    by (simp add: parse_line_def parse_line_iter_def Let_def split: option.splits)
qed

lemma parse_line_iter_distinct:
  assumes "iteration_order int_set" and "parse_line_iter int_set e line = Inr (node, neighbours)"
  shows "distinct neighbours"
proof -
  from assms(1) have "\<And>xs. distinct (int_set xs)" by (simp add: iteration_order_def)
  with assms(2) show ?thesis
    by (auto simp: parse_line_iter_def Let_def split: if_splits option.splits)
qed

lemma distinct_neighbours_update:
  "distinct_neighbours g \<Longrightarrow> distinct v \<Longrightarrow> distinct_neighbours (AList.update k v g)"
  by (induction g) (auto simp: distinct_neighbours_def)

lemma parse_loop_iter_refines:
  assumes "iteration_order int_set"
  shows "parse_loop e (graph_of g) lines = map_sum id graph_of (parse_loop_iter int_set e g lines)"
proof (induction lines arbitrary: e g)
  case Nil
  then show ?case by simp
next
  case (Cons line lines)
  show ?case
  proof (cases "parse_line_iter int_set e line")
    case (Inl err)
    with parse_line_iter_refines[OF assms, of e line] show ?thesis by simp
  next
    case (Inr p)
    obtain node neighbours where p: "p = (node, neighbours)" by (cases p)
    with Inr parse_line_iter_refines[OF assms, of e line]
    have "parse_line e line = Inr (node, set neighbours)" by simp
    with Inr p Cons.IH[of "e + 1" "AList.update node neighbours g"] show ?thesis
      by (simp add: graph_of_update)
  qed
qed

lemma parse_loop_iter_distinct:
  assumes "iteration_order int_set"
    and "parse_loop_iter int_set e g lines = Inr g'" and "distinct_neighbours g"
  shows "distinct_neighbours g'"
  using assms(2,3)
proof (induction lines arbitrary: e g)
  case Nil
  then show ?case by simp
next
  case (Cons line lines)
  from Cons.prems(1) obtain node neighbours where
    pl: "parse_line_iter int_set e line = Inr (node, neighbours)" and
    rest: "parse_loop_iter int_set (e + 1) (AList.update node neighbours g) lines = Inr g'"
    by (auto split: sum.splits)
  from parse_line_iter_distinct[OF assms(1) pl] Cons.prems(2)
  have "distinct_neighbours (AList.update node neighbours g)"
    by (simp add: distinct_neighbours_update)
  from Cons.IH[OF rest this] show ?case .
qed

lemma read_iter_refines:
  assumes "iteration_order int_set"
  shows "read_interference_graph_from_file w filename
           = map_sum id graph_of (read_interference_graph_from_file_iter int_set w filename)"
proof -
  have "graph_of [] = []" by (simp add: graph_of_def)
  with parse_loop_iter_refines[OF assms, of 1 "[]"] show ?thesis
    by (simp add: read_interference_graph_from_file_def read_interference_graph_from_file_iter_def
        parse_text_def Let_def split: read_result.splits)
qed

lemma read_iter_distinct:
  assumes "iteration_order int_set"
    and "read_interference_graph_from_file_iter int_set w filename = Inr g"
  shows "distinct_neighbours g"
proof -
  have "distinct_neighbours []" by (simp add: distinct_neighbours_def)
  with assms parse_loop_iter_distinct[OF assms(1), of 1 "[]" _ g] show ?thesis
    by (auto simp: read_interference_graph_from_file_iter_def Let_def
        split: read_result.splits if_splits)
qed

lemma insort_key_agree:
  assumes "f x = g x" and "\<forall>y \<in> set xs. f y = g y"
  shows "insort_key f x xs = insort_key g x xs"
  using assms by (induction xs) auto

lemma sort_key_agree:
  assumes "\<forall>y \<in> set xs. f y = g y"
  shows "sort_key f xs = sort_key g xs"
  using assms
proof (induction xs)
  case Nil
  then show ?case by simp
next
  case (Cons x xs)
  then have "sort_key f xs = sort_key g xs" by simp
  moreover from Cons.prems have "insort_key f x (sort_key g xs) = insort_key g x (sort_key g xs)"
    by (intro insort_key_agree) simp_all
  ultimately show ?case by simp
qed

lemma rank_iter_as_sort_key:
  "rank_nodes_by_neighbours_iter g = sort_key (\<lambda>p. (- int (length (snd p)), fst p)) g"
proof -
  let ?f = "\<lambda>(node :: int, neighbours :: int list). (node, neighbours, int (length neighbours))"
  let ?k = "\<lambda>(node :: int, neighbours :: int list, count :: int). (- count, node)"
  let ?h = "\<lambda>(node :: int, neighbours :: int list, count :: int). (node, neighbours)"
  have k: "(\<lambda>y. ?k (?f y)) = (\<lambda>p. (- int (length (snd p)), fst p))" by (auto simp: fun_eq_iff)
  have "sort_key ?k (map ?f g) = map ?f (sort_key (\<lambda>y. ?k (?f y)) g)"
    by (rule sort_key_map_commute)
  then have "map ?h (sort_key ?k (map ?f g))
      = map (?h \<circ> ?f) (sort_key (\<lambda>p. (- int (length (snd p)), fst p)) g)"
    by (simp add: k)
  also have "?h \<circ> ?f = id" by (auto simp: fun_eq_iff)
  finally show ?thesis by (simp add: rank_nodes_by_neighbours_iter_def)
qed

lemma rank_iter_refines:
  assumes "distinct_neighbours g"
  shows "rank_nodes_by_neighbours (graph_of g) = graph_of (rank_nodes_by_neighbours_iter g)"
proof -
  let ?a = "\<lambda>(node :: int, neighbours :: int list). (node, set neighbours)"
  have "sort_key rank_key (map ?a g) = map ?a (sort_key (\<lambda>y. rank_key (?a y)) g)"
    by (rule sort_key_map_commute)
  moreover have "\<forall>y \<in> set g. rank_key (?a y) = (- int (length (snd y)), fst y)"
    using assms by (auto simp: distinct_neighbours_def list_all_iff rank_key_def distinct_card)
  then have "sort_key (\<lambda>y. rank_key (?a y)) g = sort_key (\<lambda>p. (- int (length (snd p)), fst p)) g"
    by (rule sort_key_agree)
  ultimately show ?thesis
    by (simp add: rank_as_sort_key rank_iter_as_sort_key graph_of_def)
qed

lemma colour_node_iter_refines:
  assumes "iteration_order colour_set"
  shows "colour_node_iter colour_set g ca node = colour_node (graph_of g) ca node"
proof -
  from assms have "\<And>xs. set (colour_set xs) = set xs" by (simp add: iteration_order_def)
  then show ?thesis
    by (simp add: colour_node_iter_def colour_node_def map_of_graph_of Let_def
        split: option.splits)
qed

lemma colour_loop_iter_refines:
  assumes "iteration_order colour_set"
  shows "colour_loop_iter colour_set g ca ranked = colour_loop (graph_of g) ca (graph_of ranked)"
proof (induction ranked arbitrary: ca)
  case Nil
  then show ?case by (simp add: graph_of_def)
next
  case (Cons p ranked)
  obtain node neighbours where p: "p = (node, neighbours)" by (cases p)
  have "graph_of (p # ranked) = (node, set neighbours) # graph_of ranked"
    by (simp add: graph_of_def p)
  with Cons.IH show ?case
    by (simp add: p colour_node_iter_refines[OF assms] split: option.splits)
qed

lemma main_iter_refines:
  assumes "iteration_order int_set" and "iteration_order colour_set"
  shows "main_iter int_set colour_set input_filename output_filename w
           = main input_filename output_filename w"
proof (cases "read_interference_graph_from_file_iter int_set w input_filename")
  case (Inl e)
  with read_iter_refines[OF assms(1), of w input_filename] show ?thesis
    by (simp add: main_iter_def main_def)
next
  case (Inr g)
  with read_iter_refines[OF assms(1), of w input_filename]
  have r: "read_interference_graph_from_file w input_filename = Inr (graph_of g)" by simp
  from read_iter_distinct[OF assms(1) Inr] have "distinct_neighbours g" .
  then have "rank_nodes_by_neighbours (graph_of g) = graph_of (rank_nodes_by_neighbours_iter g)"
    by (rule rank_iter_refines)
  then have "assign_colours_iter colour_set g (rank_nodes_by_neighbours_iter g)
      = assign_colours (graph_of g) (rank_nodes_by_neighbours (graph_of g))"
    by (simp add: assign_colours_iter_def assign_colours_def colour_loop_iter_refines[OF assms(2)])
  with Inr r show ?thesis by (simp add: main_iter_def main_def)
qed


text \<open>
  C8: the result of a run depends on the input text only. Take two runs whose input
  files read the same, in worlds that may differ in everything else, and with any orders
  of iteration of their sets. Either both print the same message and change nothing
  else, or there is one text such that each run writes this text to its output file
  and changes nothing else, unless writing its output file raises OSError, in which
  case the run ends in this exception.
\<close>

theorem main_deterministic:
  assumes "iteration_order int_set1" and "iteration_order colour_set1"
    and "iteration_order int_set2" and "iteration_order colour_set2"
    and "files w1 input1 = files w2 input2"
  shows "(\<exists>e. main_iter int_set1 colour_set1 input1 output1 w1
                = Some (w1\<lparr>stdout := stdout w1 @ message e @ [LF]\<rparr>) \<and>
              main_iter int_set2 colour_set2 input2 output2 w2
                = Some (w2\<lparr>stdout := stdout w2 @ message e @ [LF]\<rparr>)) \<or>
         (\<exists>content.
              main_iter int_set1 colour_set1 input1 output1 w1
                = (if write_raises w1 output1 then None
                   else Some (w1\<lparr>files := (files w1)(output1 := Text content)\<rparr>)) \<and>
              main_iter int_set2 colour_set2 input2 output2 w2
                = (if write_raises w2 output2 then None
                   else Some (w2\<lparr>files := (files w2)(output2 := Text content)\<rparr>)))"
proof -
  from assms(5) have same:
    "read_interference_graph_from_file w1 input1 = read_interference_graph_from_file w2 input2"
    by (simp add: read_interference_graph_from_file_def)
  have m1: "main_iter int_set1 colour_set1 input1 output1 w1 = main input1 output1 w1"
    using assms(1,2) by (rule main_iter_refines)
  have m2: "main_iter int_set2 colour_set2 input2 output2 w2 = main input2 output2 w2"
    using assms(3,4) by (rule main_iter_refines)
  from main_cases[of w1 input1 output1] main_cases[of w2 input2 output2] same
  show ?thesis unfolding m1 m2 by (elim disjE exE conjE) auto
qed

text \<open>
  Two orders of iteration, the order of insertion and its reverse, in the two example
  worlds. The orders give different lists of neighbours for node 1, and the runs agree.
\<close>

lemma remdups_order: "iteration_order remdups"
  by (simp add: iteration_order_def)

lemma rev_remdups_order: "iteration_order (\<lambda>xs. rev (remdups xs))"
  by (simp add: iteration_order_def)

theorem main_deterministic_witness:
  "iteration_order (remdups :: int list \<Rightarrow> int list) \<and>
   iteration_order (remdups :: char option list \<Rightarrow> char option list) \<and>
   iteration_order (\<lambda>xs :: int list. rev (remdups xs)) \<and>
   iteration_order (\<lambda>xs :: char option list. rev (remdups xs)) \<and>
   files first_world ''input.txt'' = files second_world ''input.txt'' \<and>
   read_interference_graph_from_file_iter remdups first_world ''input.txt''
     = Inr [(1, [2, 3]), (2, [1]), (3, [1])] \<and>
   read_interference_graph_from_file_iter (\<lambda>xs. rev (remdups xs)) second_world ''input.txt''
     = Inr [(1, [3, 2]), (2, [1]), (3, [1])] \<and>
   ((\<exists>e. main_iter remdups remdups ''input.txt'' ''output.txt'' first_world
            = Some (first_world\<lparr>stdout := stdout first_world @ message e @ [LF]\<rparr>) \<and>
         main_iter (\<lambda>xs. rev (remdups xs)) (\<lambda>xs. rev (remdups xs))
            ''input.txt'' ''output.txt'' second_world
            = Some (second_world\<lparr>stdout := stdout second_world @ message e @ [LF]\<rparr>)) \<or>
    (\<exists>content.
         main_iter remdups remdups ''input.txt'' ''output.txt'' first_world
            = (if write_raises first_world ''output.txt'' then None
               else Some (first_world
                            \<lparr>files := (files first_world)(''output.txt'' := Text content)\<rparr>)) \<and>
         main_iter (\<lambda>xs. rev (remdups xs)) (\<lambda>xs. rev (remdups xs))
            ''input.txt'' ''output.txt'' second_world
            = (if write_raises second_world ''output.txt'' then None
               else Some (second_world
                            \<lparr>files := (files second_world)(''output.txt'' := Text content)\<rparr>))))"
  (is "?o1 \<and> ?o2 \<and> ?o3 \<and> ?o4 \<and> ?f \<and> ?g1 \<and> ?g2 \<and> ?concl")
proof -
  have o1: ?o1 by (rule remdups_order)
  have o2: ?o2 by (rule remdups_order)
  have o3: ?o3 by (rule rev_remdups_order)
  have o4: ?o4 by (rule rev_remdups_order)
  have f: ?f by (simp add: first_world_def second_world_def)
  have g1: ?g1 by code_simp
  have g2: ?g2 by code_simp
  have ?concl by (rule main_deterministic[OF o1 o2 o3 o4 f])
  with o1 o2 o3 o4 f g1 g2 show ?thesis by blast
qed

end
